theory Spec2Isabelle
  imports Main
begin

section \<open>The sidebar context (sidebar.tsx, lines 18-54)\<close>

text \<open>
  \<^verbatim>\<open>throw new Error(msg)\<close> is the only failure of the source; it becomes the left
  summand of a result.
\<close>

datatype error = Error string

text \<open>
  A value of type \<^verbatim>\<open>React.Dispatch<React.SetStateAction<boolean>>\<close> is a state setter.
  Two of them occur: the provider's own \<^verbatim>\<open>setOpenState\<close> (line 45) and the setter the
  caller hands in as the \<^verbatim>\<open>setOpen\<close> prop, which writes a state cell of the caller.
\<close>

datatype dispatch = SetOpenState | SetOwnerOpen

record SidebarContextProps =
  "open" :: bool
  setOpen :: dispatch
  animate :: bool

text \<open>
  \<^verbatim>\<open>createContext<SidebarContextProps | undefined>(undefined)\<close>: a component reads the
  value of the nearest enclosing provider, and \<^verbatim>\<open>undefined\<close> when there is none. The
  ancestors of a component are listed nearest first.
\<close>

datatype node = Provider SidebarContextProps | Element

fun useContext :: "node list \<Rightarrow> SidebarContextProps option" where
  "useContext [] = None"
| "useContext (Provider v # _) = Some v"
| "useContext (Element # ancestors) = useContext ancestors"

definition useSidebar :: "node list \<Rightarrow> error + SidebarContextProps" where
  "useSidebar ancestors =
     (case useContext ancestors of
        None \<Rightarrow> Inl (Error ''useSidebar must be used inside SidebarProvider'')
      | Some context \<Rightarrow> Inr context)"

text \<open>
  The props of \<^verbatim>\<open>SidebarProvider\<close> and \<^verbatim>\<open>Sidebar\<close>: each is optional. \<^verbatim>\<open>??\<close> falls back
  only on an absent prop (a supplied \<^verbatim>\<open>false\<close> is kept), and the default parameter
  \<^verbatim>\<open>animate = true\<close> applies to an absent prop.
\<close>

record SidebarProps =
  openProp :: "bool option"
  setOpenProp :: "dispatch option"
  animateProp :: "bool option"

definition SidebarProvider :: "SidebarProps \<Rightarrow> bool \<Rightarrow> SidebarContextProps" where
  "SidebarProvider props openState' =
     \<lparr> open = (case openProp props of Some b \<Rightarrow> b | None \<Rightarrow> openState'),
       setOpen = (case setOpenProp props of Some f \<Rightarrow> f | None \<Rightarrow> SetOpenState),
       animate = (case animateProp props of Some a \<Rightarrow> a | None \<Rightarrow> True) \<rparr>"

definition Sidebar :: "SidebarProps \<Rightarrow> bool \<Rightarrow> SidebarContextProps" where
  "Sidebar props openState' = SidebarProvider props openState'"

section \<open>What the components render from the context\<close>

definition DesktopSidebar_width :: "SidebarContextProps \<Rightarrow> nat" where
  "DesktopSidebar_width c = (if animate c then (if open c then 260 else 80) else 260)"

definition SidebarLink_opacity :: "SidebarContextProps \<Rightarrow> nat" where
  "SidebarLink_opacity c = (if animate c then (if open c then 1 else 0) else 1)"

definition SidebarLink_x :: "SidebarContextProps \<Rightarrow> int" where
  "SidebarLink_x c = (if animate c then (if open c then 0 else - 12) else 0)"

section \<open>The mounted sidebar as a state machine\<close>

text \<open>
  The owner is the component that renders \<^verbatim>\<open><Sidebar ...>\<close>. It holds one boolean state
  cell and decides which of the optional props it passes: \<^verbatim>\<open>open={ownerOpen}\<close>,
  \<^verbatim>\<open>setOpen={setOwnerOpen}\<close> and \<^verbatim>\<open>animate\<close>. Passing both is the controlled pair; passing
  \<^verbatim>\<open>open\<close> alone is a fixed value, since nothing else writes the owner's cell.
\<close>

record owner =
  ownerOpen :: bool
  passOpen :: bool
  passSetOpen :: bool
  ownerAnimate :: "bool option"

definition props_of :: "owner \<Rightarrow> SidebarProps" where
  "props_of ow =
     \<lparr> openProp = (if passOpen ow then Some (ownerOpen ow) else None),
       setOpenProp = (if passSetOpen ow then Some SetOwnerOpen else None),
       animateProp = ownerAnimate ow \<rparr>"

text \<open>
  A pending \<^verbatim>\<open>setTimeout\<close>. The only callback of the source is
  \<^verbatim>\<open>() => animate && setOpen(false)\<close> (line 115); the closure keeps the \<^verbatim>\<open>animate\<close> and
  \<^verbatim>\<open>setOpen\<close> of the render that created it.
\<close>

record timer =
  handle :: nat
  due :: nat
  cbAnimate :: bool
  cbSetOpen :: dispatch

text \<open>
  A mounted \<^verbatim>\<open>DesktopSidebar\<close> owns the ref \<^verbatim>\<open>hoverTimeout\<close> (line 99), a mounted
  \<^verbatim>\<open>MobileSidebar\<close> the state \<^verbatim>\<open>menuOpen\<close> (line 132). An unmounted component has no
  instance: its hooks' state is gone.
\<close>

record DesktopSidebar_instance =
  hoverTimeout :: "nat option"

record MobileSidebar_instance =
  menuOpen :: bool

record world =
  owner :: owner
  openState :: bool
  desktop :: "DesktopSidebar_instance option"
  mobile :: "MobileSidebar_instance option"
  clock :: nat
  timers :: "timer list"
  nextHandle :: nat

definition context_of :: "world \<Rightarrow> SidebarContextProps" where
  "context_of w = Sidebar (props_of (owner w)) (openState w)"

text \<open>
  The ancestors of the two sidebars in \<^verbatim>\<open><Sidebar><SidebarBody/></Sidebar>\<close>, nearest
  first: \<^verbatim>\<open>SidebarBody\<close>, the context provider, \<^verbatim>\<open>SidebarProvider\<close>, \<^verbatim>\<open>Sidebar\<close>.
\<close>

definition ancestors_of :: "world \<Rightarrow> node list" where
  "ancestors_of w = [Element, Provider (context_of w), Element, Element]"

fun call :: "dispatch \<Rightarrow> bool \<Rightarrow> world \<Rightarrow> world" where
  "call SetOpenState b w = w\<lparr>openState := b\<rparr>"
| "call SetOwnerOpen b w = w\<lparr>owner := (owner w)\<lparr>ownerOpen := b\<rparr>\<rparr>"

definition setTimeout :: "bool \<Rightarrow> dispatch \<Rightarrow> nat \<Rightarrow> world \<Rightarrow> nat \<times> world" where
  "setTimeout a f delay w =
     (nextHandle w,
      w\<lparr>timers := timers w @
            [\<lparr> handle = nextHandle w, due = clock w + delay, cbAnimate = a, cbSetOpen = f \<rparr>],
        nextHandle := nextHandle w + 1\<rparr>)"

definition timeout_callback :: "timer \<Rightarrow> world \<Rightarrow> world" where
  "timeout_callback t w = (if cbAnimate t then call (cbSetOpen t) False w else w)"

subsection \<open>DesktopSidebar (lines 91-120)\<close>

definition DesktopSidebar_mount :: "world \<Rightarrow> world" where
  "DesktopSidebar_mount w = w\<lparr>desktop := Some \<lparr> hoverTimeout = None \<rparr>\<rparr>"

definition onMouseEnter :: "SidebarContextProps \<Rightarrow> world \<Rightarrow> world" where
  "onMouseEnter c w = (if animate c then call (setOpen c) True w else w)"

definition onMouseLeave ::
  "SidebarContextProps \<Rightarrow> DesktopSidebar_instance \<Rightarrow> world \<Rightarrow> world" where
  "onMouseLeave c d w =
     (case setTimeout (animate c) (setOpen c) 120 w of
        (h, w') \<Rightarrow> w'\<lparr>desktop := Some (d\<lparr>hoverTimeout := Some h\<rparr>)\<rparr>)"

text \<open>
  The component registers no effect and no cleanup, so unmounting only drops the
  instance; the timer list is not touched.
\<close>

definition DesktopSidebar_unmount :: "world \<Rightarrow> world" where
  "DesktopSidebar_unmount w = w\<lparr>desktop := None\<rparr>"

subsection \<open>MobileSidebar (lines 125-187)\<close>

text \<open>
  \<^verbatim>\<open>useState(false)\<close>, then the effect of lines 137-139 after the first render. Its
  dependency \<^verbatim>\<open>setOpen\<close> keeps its identity while the owner's props are fixed, so the
  effect runs once per mount.
\<close>

definition MobileSidebar_mount :: "SidebarContextProps \<Rightarrow> world \<Rightarrow> world" where
  "MobileSidebar_mount c w = call (setOpen c) False (w\<lparr>mobile := Some \<lparr> menuOpen = False \<rparr>\<rparr>)"

text \<open>
  \<^verbatim>\<open>onClick={() => setMenuOpen(!menuOpen)}\<close> reads the \<^verbatim>\<open>menuOpen\<close> of the latest render;
  a click is a discrete event, and the component has rendered again before the next
  one is dispatched.
\<close>

definition menu_onClick :: "MobileSidebar_instance \<Rightarrow> world \<Rightarrow> world" where
  "menu_onClick m w = w\<lparr>mobile := Some (m\<lparr>menuOpen := \<not> menuOpen m\<rparr>)\<rparr>"

definition MobileSidebar_unmount :: "world \<Rightarrow> world" where
  "MobileSidebar_unmount w = w\<lparr>mobile := None\<rparr>"

definition drawer_rendered :: "world \<Rightarrow> bool" where
  "drawer_rendered w = (case mobile w of None \<Rightarrow> False | Some m \<Rightarrow> menuOpen m)"

subsection \<open>Events\<close>

text \<open>
  \<^verbatim>\<open>Elapse n\<close> lets \<^verbatim>\<open>n\<close> milliseconds pass with no other event: every timer that is due
  by then fires, in the order the timers were set. All timers have the same delay and
  the clock never runs backwards, so that is the order of their due times.
\<close>

definition elapse :: "nat \<Rightarrow> world \<Rightarrow> world" where
  "elapse n w =
     (let now = clock w + n
      in fold timeout_callback (filter (\<lambda>t. due t \<le> now) (timers w))
           (w\<lparr>clock := now, timers := filter (\<lambda>t. \<not> due t \<le> now) (timers w)\<rparr>))"

datatype event =
    MountDesktop | MouseEnter | MouseLeave | UnmountDesktop
  | MountMobile | ClickMenu | UnmountMobile
  | Elapse nat

text \<open>
  A handler runs only on a mounted component. Each component reads the context through
  \<^const>\<open>useSidebar\<close> when it renders; a render that threw would leave the world as it is.
\<close>

fun step :: "event \<Rightarrow> world \<Rightarrow> world" where
  "step MountDesktop w =
     (case (desktop w, useSidebar (ancestors_of w)) of
        (None, Inr c) \<Rightarrow> DesktopSidebar_mount w
      | _ \<Rightarrow> w)"
| "step MouseEnter w =
     (case (desktop w, useSidebar (ancestors_of w)) of
        (Some d, Inr c) \<Rightarrow> onMouseEnter c w
      | _ \<Rightarrow> w)"
| "step MouseLeave w =
     (case (desktop w, useSidebar (ancestors_of w)) of
        (Some d, Inr c) \<Rightarrow> onMouseLeave c d w
      | _ \<Rightarrow> w)"
| "step UnmountDesktop w = DesktopSidebar_unmount w"
| "step MountMobile w =
     (case (mobile w, useSidebar (ancestors_of w)) of
        (None, Inr c) \<Rightarrow> MobileSidebar_mount c w
      | _ \<Rightarrow> w)"
| "step ClickMenu w =
     (case mobile w of
        Some m \<Rightarrow> menu_onClick m w
      | None \<Rightarrow> w)"
| "step UnmountMobile w = MobileSidebar_unmount w"
| "step (Elapse n) w = elapse n w"

definition run :: "event list \<Rightarrow> world \<Rightarrow> world" where
  "run es w = fold step es w"

text \<open>
  Mounting \<^verbatim>\<open><Sidebar ...>\<close> with no body yet: \<^verbatim>\<open>useState(false)\<close> of line 45, no timer.
\<close>

definition Sidebar_mount :: "owner \<Rightarrow> world" where
  "Sidebar_mount ow =
     \<lparr> owner = ow, openState = False, desktop = None, mobile = None,
       clock = 0, timers = [], nextHandle = 1 \<rparr>"

definition is_hover :: "event \<Rightarrow> bool" where
  "is_hover e = (case e of MouseEnter \<Rightarrow> True | MouseLeave \<Rightarrow> True | Elapse n \<Rightarrow> True | _ \<Rightarrow> False)"

section \<open>The reveal wrapper (ScrollReveal)\<close>

datatype variant = Hidden | Visible

record useInView_state =
  inView :: bool
  observing :: bool

text \<open>
  Modelled from the spec: the hook \<^verbatim>\<open>useInView\<close> of the package
  react-intersection-observer, which the repository imports and does not contain. The
  spec has \<^verbatim>\<open>inView\<close> a boolean, default false, derived from viewport intersection,
  captured once under \<^verbatim>\<open>triggerOnce\<close> and never reverted: the hook stops observing at the
  first intersecting entry. Without \<^verbatim>\<open>triggerOnce\<close> it follows every entry.
\<close>

definition useInView_initial :: useInView_state where
  "useInView_initial = \<lparr> inView = False, observing = True \<rparr>"

definition useInView_entry :: "bool \<Rightarrow> bool \<Rightarrow> useInView_state \<Rightarrow> useInView_state" where
  "useInView_entry triggerOnce intersecting h =
     (if observing h
      then \<lparr> inView = intersecting, observing = \<not> (triggerOnce \<and> intersecting) \<rparr>
      else h)"

text \<open>
  The wrapper itself, from the source: \<^verbatim>\<open>initial="hidden"\<close>, and an effect on \<^verbatim>\<open>[inView]\<close>
  (after the first render and after every render in which \<^verbatim>\<open>inView\<close> changed) that calls
  \<^verbatim>\<open>controls.start("visible")\<close> when \<^verbatim>\<open>inView\<close> holds. Nothing starts \<^verbatim>\<open>"hidden"\<close>.
\<close>

record ScrollReveal_state =
  hook :: useInView_state
  shown :: variant

definition ScrollReveal_effect :: "ScrollReveal_state \<Rightarrow> ScrollReveal_state" where
  "ScrollReveal_effect s = (if inView (hook s) then s\<lparr>shown := Visible\<rparr> else s)"

definition ScrollReveal_mount :: ScrollReveal_state where
  "ScrollReveal_mount = ScrollReveal_effect \<lparr> hook = useInView_initial, shown = Hidden \<rparr>"

definition ScrollReveal_render ::
  "bool \<Rightarrow> bool \<Rightarrow> ScrollReveal_state \<Rightarrow> ScrollReveal_state" where
  "ScrollReveal_render triggerOnce intersecting s =
     (let h = useInView_entry triggerOnce intersecting (hook s)
      in if inView h = inView (hook s) then s\<lparr>hook := h\<rparr>
         else ScrollReveal_effect (s\<lparr>hook := h\<rparr>))"

definition ScrollReveal_entry :: "bool \<Rightarrow> ScrollReveal_state \<Rightarrow> ScrollReveal_state" where
  "ScrollReveal_entry intersecting s = ScrollReveal_render True intersecting s"

fun ScrollReveal_trace :: "ScrollReveal_state \<Rightarrow> bool list \<Rightarrow> ScrollReveal_state list" where
  "ScrollReveal_trace s [] = [s]"
| "ScrollReveal_trace s (b # bs) = s # ScrollReveal_trace (ScrollReveal_entry b s) bs"

definition ScrollReveal_run :: "bool list \<Rightarrow> ScrollReveal_state \<Rightarrow> ScrollReveal_state" where
  "ScrollReveal_run bs s = fold ScrollReveal_entry bs s"

text \<open>
  How often a list of animation states goes from hidden to visible, and from visible
  to hidden.
\<close>

fun reveals :: "variant list \<Rightarrow> nat" where
  "reveals (Hidden # Visible # vs) = Suc (reveals (Visible # vs))"
| "reveals (v # vs) = reveals vs"
| "reveals [] = 0"

fun hides :: "variant list \<Rightarrow> nat" where
  "hides (Visible # Hidden # vs) = Suc (hides (Hidden # vs))"
| "hides (v # vs) = hides vs"
| "hides [] = 0"

section \<open>Properties of the context accessor\<close>

lemma useContext_no_provider:
  "useContext ancestors = None \<longleftrightarrow> (\<forall>v. Provider v \<notin> set ancestors)"
proof (induction ancestors)
  case Nil
  show ?case by simp
next
  case (Cons n ancestors)
  then show ?case by (cases n) auto
qed

lemma useContext_nearest:
  "(\<forall>v. Provider v \<notin> set inner) \<Longrightarrow> useContext (inner @ Provider c # outer) = Some c"
proof (induction inner)
  case Nil
  show ?case by simp
next
  case (Cons n inner)
  then show ?case by (cases n) auto
qed

text \<open>
  C2. Outside every provider the accessor raises the error with its message and
  returns no context, neither an undefined nor a default one; under a provider it
  returns the value of the nearest one, which for \<^verbatim>\<open>SidebarProvider\<close> is the record
  \<^verbatim>\<open>{open, setOpen, animate}\<close> built from the props and the provider's state.
\<close>

theorem useSidebar_raises_outside_returns_inside:
  "((\<forall>v. Provider v \<notin> set ancestors) \<longrightarrow>
      useSidebar ancestors = Inl (Error ''useSidebar must be used inside SidebarProvider''))
   \<and> ((\<exists>c. useSidebar ancestors = Inr c) \<longrightarrow> (\<exists>v. Provider v \<in> set ancestors))
   \<and> ((\<forall>v. Provider v \<notin> set inner) \<longrightarrow>
      useSidebar (inner @ Provider (SidebarProvider props st) # outer) =
        Inr \<lparr> open = (case openProp props of Some b \<Rightarrow> b | None \<Rightarrow> st),
              setOpen = (case setOpenProp props of Some f \<Rightarrow> f | None \<Rightarrow> SetOpenState),
              animate = (case animateProp props of Some a \<Rightarrow> a | None \<Rightarrow> True) \<rparr>)"
proof (intro conjI impI)
  assume "\<forall>v. Provider v \<notin> set ancestors"
  then have "useContext ancestors = None"
    by (simp add: useContext_no_provider)
  then show "useSidebar ancestors = Inl (Error ''useSidebar must be used inside SidebarProvider'')"
    by (simp add: useSidebar_def)
next
  assume "\<exists>c. useSidebar ancestors = Inr c"
  then have "useContext ancestors \<noteq> None"
    by (auto simp: useSidebar_def split: option.splits)
  then show "\<exists>v. Provider v \<in> set ancestors"
    by (simp add: useContext_no_provider)
next
  assume "\<forall>v. Provider v \<notin> set inner"
  then have "useContext (inner @ Provider (SidebarProvider props st) # outer) =
      Some (SidebarProvider props st)"
    by (rule useContext_nearest)
  then show "useSidebar (inner @ Provider (SidebarProvider props st) # outer) =
        Inr \<lparr> open = (case openProp props of Some b \<Rightarrow> b | None \<Rightarrow> st),
              setOpen = (case setOpenProp props of Some f \<Rightarrow> f | None \<Rightarrow> SetOpenState),
              animate = (case animateProp props of Some a \<Rightarrow> a | None \<Rightarrow> True) \<rparr>"
    by (simp add: useSidebar_def SidebarProvider_def)
qed

theorem useSidebar_raises_outside_returns_inside_witness:
  "(\<forall>v. Provider v \<notin> set [Element, Element])
   \<and> useSidebar [Element, Element] =
       Inl (Error ''useSidebar must be used inside SidebarProvider'')
   \<and> (\<exists>c. useSidebar [Element, Provider \<lparr> open = True, setOpen = SetOpenState, animate = False \<rparr>]
         = Inr c)
   \<and> (\<exists>v. Provider v \<in> set [Element, Provider \<lparr> open = True, setOpen = SetOpenState, animate = False \<rparr>])
   \<and> (\<forall>v. Provider v \<notin> set [Element])
   \<and> useSidebar
        ([Element] @
         Provider (SidebarProvider
           \<lparr> openProp = Some True, setOpenProp = None, animateProp = Some False \<rparr> False) # []) =
       Inr \<lparr> open = True, setOpen = SetOpenState, animate = False \<rparr>"
proof -
  let ?p = "\<lparr> openProp = Some True, setOpenProp = None, animateProp = Some False \<rparr>"
  let ?c = "\<lparr> open = True, setOpen = SetOpenState, animate = False \<rparr>"
  have h1: "\<forall>v. Provider v \<notin> set [Element, Element]" by simp
  have h2: "\<exists>c. useSidebar [Element, Provider ?c] = Inr c"
    by (simp add: useSidebar_def)
  have h3: "\<forall>v. Provider v \<notin> set [Element]" by simp
  note t1 = useSidebar_raises_outside_returns_inside [of "[Element, Element]" "[]" ?p False "[]"]
  note t2 = useSidebar_raises_outside_returns_inside [of "[Element, Provider ?c]" "[]" ?p False "[]"]
  note t3 = useSidebar_raises_outside_returns_inside [of "[]" "[Element]" ?p False "[]"]
  from t1 h1 have c1: "useSidebar [Element, Element] =
      Inl (Error ''useSidebar must be used inside SidebarProvider'')"
    by blast
  from t2 h2 have c2: "\<exists>v. Provider v \<in> set [Element, Provider ?c]"
    by blast
  from t3 h3 have c3: "useSidebar ([Element] @ Provider (SidebarProvider ?p False) # []) =
      Inr ?c"
    by simp
  from h1 c1 h2 c2 h3 c3 show ?thesis by blast
qed

section \<open>What is rendered\<close>

text \<open>
  C4. With \<^verbatim>\<open>animate = false\<close> the rendered width of the desktop sidebar is 260 for both
  values of \<^verbatim>\<open>open\<close>; with \<^verbatim>\<open>animate = true\<close> it is 260 when open and 80 when closed.
\<close>

theorem DesktopSidebar_width_cases:
  "DesktopSidebar_width \<lparr> open = b, setOpen = f, animate = False \<rparr> = 260
   \<and> DesktopSidebar_width \<lparr> open = True, setOpen = f, animate = True \<rparr> = 260
   \<and> DesktopSidebar_width \<lparr> open = False, setOpen = f, animate = True \<rparr> = 80"
  by (simp add: DesktopSidebar_width_def)

section \<open>Facts about the state machine\<close>

lemma useSidebar_ancestors_of:
  "useSidebar (ancestors_of w) = Inr (context_of w)"
  by (simp add: useSidebar_def ancestors_of_def)

lemma open_context_of:
  "open (context_of w) = (if passOpen (owner w) then ownerOpen (owner w) else openState w)"
  by (simp add: context_of_def Sidebar_def SidebarProvider_def props_of_def)

lemma setOpen_context_of:
  "setOpen (context_of w) = (if passSetOpen (owner w) then SetOwnerOpen else SetOpenState)"
  by (simp add: context_of_def Sidebar_def SidebarProvider_def props_of_def)

lemma animate_context_of:
  "animate (context_of w) = (case ownerAnimate (owner w) of None \<Rightarrow> True | Some a \<Rightarrow> a)"
  by (simp add: context_of_def Sidebar_def SidebarProvider_def props_of_def)

lemmas world_defs =
  useSidebar_ancestors_of DesktopSidebar_mount_def DesktopSidebar_unmount_def
  onMouseEnter_def onMouseLeave_def MobileSidebar_mount_def MobileSidebar_unmount_def
  menu_onClick_def setTimeout_def timeout_callback_def elapse_def

lemmas context_fields = open_context_of setOpen_context_of animate_context_of

lemma call_frame:
  "timers (call f b w) = timers w \<and> clock (call f b w) = clock w
   \<and> desktop (call f b w) = desktop w \<and> mobile (call f b w) = mobile w
   \<and> nextHandle (call f b w) = nextHandle w
   \<and> passOpen (owner (call f b w)) = passOpen (owner w)
   \<and> passSetOpen (owner (call f b w)) = passSetOpen (owner w)
   \<and> ownerAnimate (owner (call f b w)) = ownerAnimate (owner w)"
  by (cases f) simp_all

lemma fold_timeout_callback_frame:
  "timers (fold timeout_callback ts w) = timers w
   \<and> ownerAnimate (owner (fold timeout_callback ts w)) = ownerAnimate (owner w)"
proof (induction ts arbitrary: w)
  case Nil
  show ?case by simp
next
  case (Cons t ts)
  show ?case
    using Cons.IH [of "timeout_callback t w"]
    by (simp add: timeout_callback_def call_frame)
qed

lemma fold_timeout_callback_idle:
  "\<forall>t \<in> set ts. \<not> cbAnimate t \<Longrightarrow> fold timeout_callback ts w = w"
  by (induction ts arbitrary: w) (simp_all add: timeout_callback_def)

lemma step_ownerAnimate:
  "ownerAnimate (owner (step e w)) = ownerAnimate (owner w)"
proof (cases e)
  case (Elapse n)
  then show ?thesis
    by (simp add: elapse_def Let_def fold_timeout_callback_frame)
qed (simp_all add: world_defs call_frame split: option.splits)

lemma step_timers_idle:
  assumes "ownerAnimate (owner w) = Some False"
    and "\<forall>t \<in> set (timers w). \<not> cbAnimate t"
  shows "\<forall>t \<in> set (timers (step e w)). \<not> cbAnimate t"
proof (cases e)
  case (Elapse n)
  then show ?thesis
    using assms(2) by (simp add: elapse_def Let_def fold_timeout_callback_frame)
next
  case MouseLeave
  then show ?thesis
    using assms by (auto simp: world_defs animate_context_of split: option.splits)
qed (use assms(2) in \<open>simp_all add: world_defs call_frame split: option.splits\<close>)

lemma run_static_idle:
  assumes "ownerAnimate (owner w) = Some False"
    and "\<forall>t \<in> set (timers w). \<not> cbAnimate t"
  shows "ownerAnimate (owner (run es w)) = Some False
    \<and> (\<forall>t \<in> set (timers (run es w)). \<not> cbAnimate t)"
  using assms
proof (induction es arbitrary: w)
  case Nil
  then show ?case by (simp add: run_def)
next
  case (Cons e es)
  have "ownerAnimate (owner (step e w)) = Some False"
    using Cons.prems(1) by (simp add: step_ownerAnimate)
  moreover have "\<forall>t \<in> set (timers (step e w)). \<not> cbAnimate t"
    using Cons.prems by (rule step_timers_idle)
  ultimately show ?case
    using Cons.IH [of "step e w"] by (simp add: run_def)
qed

lemma hover_step_frame:
  assumes "ownerAnimate (owner w) = Some False"
    and "\<forall>t \<in> set (timers w). \<not> cbAnimate t"
    and "is_hover e"
  shows "openState (step e w) = openState w \<and> owner (step e w) = owner w"
proof (cases e)
  case (Elapse n)
  have "fold timeout_callback (filter (\<lambda>t. due t \<le> clock w + n) (timers w)) w' = w'" for w'
    using assms(2) by (intro fold_timeout_callback_idle) simp
  then show ?thesis
    using Elapse by (simp add: elapse_def Let_def)
next
  case MouseEnter
  then show ?thesis
    using assms(1) by (simp add: world_defs animate_context_of split: option.splits)
next
  case MouseLeave
  then show ?thesis
    by (simp add: world_defs split: option.splits)
qed (use assms(3) in \<open>simp_all add: is_hover_def\<close>)

lemma hover_run_frame:
  assumes "ownerAnimate (owner w) = Some False"
    and "\<forall>t \<in> set (timers w). \<not> cbAnimate t"
    and "list_all is_hover es"
  shows "openState (run es w) = openState w \<and> owner (run es w) = owner w"
  using assms
proof (induction es arbitrary: w)
  case Nil
  then show ?case by (simp add: run_def)
next
  case (Cons e es)
  have frame: "openState (step e w) = openState w \<and> owner (step e w) = owner w"
    using Cons.prems by (intro hover_step_frame) simp_all
  have "\<forall>t \<in> set (timers (step e w)). \<not> cbAnimate t"
    using Cons.prems(1,2) by (rule step_timers_idle)
  then have "openState (run es (step e w)) = openState (step e w)
      \<and> owner (run es (step e w)) = owner (step e w)"
    using Cons.prems frame by (intro Cons.IH) simp_all
  then show ?case
    using frame by (simp add: run_def)
qed

section \<open>The desktop sidebar's hover behaviour\<close>

text \<open>
  What the two handlers do on a mounted desktop sidebar. Pointer-enter, with \<^verbatim>\<open>animate\<close>
  set, is the call \<^verbatim>\<open>setOpen(true)\<close> and nothing else. Pointer-leave changes no open
  state: it adds one timer, due 120 ms later, and stores its handle in the ref.
  Neither pointer-enter nor unmounting removes a timer.
\<close>

lemma MouseEnter_effect:
  "desktop w = Some d \<Longrightarrow> animate (context_of w) \<Longrightarrow>
   step MouseEnter w = call (setOpen (context_of w)) True w"
  by (simp add: world_defs)

lemma MouseLeave_effect:
  "desktop w = Some d \<Longrightarrow>
   step MouseLeave w =
     w\<lparr>timers := timers w @
          [\<lparr> handle = nextHandle w, due = clock w + 120,
             cbAnimate = animate (context_of w), cbSetOpen = setOpen (context_of w) \<rparr>],
       nextHandle := nextHandle w + 1,
       desktop := Some (d\<lparr>hoverTimeout := Some (nextHandle w)\<rparr>)\<rparr>"
  by (simp add: world_defs)

lemma timers_kept_by_enter_and_unmount:
  "timers (step MouseEnter w) = timers w \<and> timers (step UnmountDesktop w) = timers w"
  by (simp add: world_defs call_frame split: option.splits)

text \<open>
  C9. With \<^verbatim>\<open>animate = false\<close>, in every state the sidebar can reach, no sequence of
  pointer-enter, pointer-leave and timer expiry changes the shared open flag: the
  provider's state, the owner's state and the \<^verbatim>\<open>open\<close> of the context stay as they were.
\<close>

theorem hover_without_animate_keeps_open:
  assumes "\<not> animate (context_of (Sidebar_mount ow))"
    and "list_all is_hover es"
  shows "openState (run es (run pre (Sidebar_mount ow))) = openState (run pre (Sidebar_mount ow))
    \<and> owner (run es (run pre (Sidebar_mount ow))) = owner (run pre (Sidebar_mount ow))
    \<and> open (context_of (run es (run pre (Sidebar_mount ow)))) =
        open (context_of (run pre (Sidebar_mount ow)))"
proof -
  have a: "ownerAnimate (owner (Sidebar_mount ow)) = Some False"
    using assms(1) by (simp add: animate_context_of Sidebar_mount_def split: option.splits)
  have t: "\<forall>t \<in> set (timers (Sidebar_mount ow)). \<not> cbAnimate t"
    by (simp add: Sidebar_mount_def)
  have inv: "ownerAnimate (owner (run pre (Sidebar_mount ow))) = Some False
      \<and> (\<forall>t \<in> set (timers (run pre (Sidebar_mount ow))). \<not> cbAnimate t)"
    using a t by (rule run_static_idle)
  have "openState (run es (run pre (Sidebar_mount ow))) = openState (run pre (Sidebar_mount ow))
      \<and> owner (run es (run pre (Sidebar_mount ow))) = owner (run pre (Sidebar_mount ow))"
    using inv assms(2) by (intro hover_run_frame) simp_all
  then show ?thesis
    by (simp add: open_context_of)
qed

theorem hover_without_animate_keeps_open_witness:
  "\<not> animate (context_of (Sidebar_mount
        \<lparr> ownerOpen = True, passOpen = True, passSetOpen = True, ownerAnimate = Some False \<rparr>))
   \<and> list_all is_hover [MouseEnter, MouseLeave, Elapse 120, MouseLeave, Elapse 60, MouseEnter]
   \<and> open (context_of (run [MouseEnter, MouseLeave, Elapse 120, MouseLeave, Elapse 60, MouseEnter]
        (run [MountDesktop] (Sidebar_mount
          \<lparr> ownerOpen = True, passOpen = True, passSetOpen = True, ownerAnimate = Some False \<rparr>))))
   \<and> open (context_of (run [MountDesktop] (Sidebar_mount
        \<lparr> ownerOpen = True, passOpen = True, passSetOpen = True, ownerAnimate = Some False \<rparr>)))"
proof -
  let ?ow = "\<lparr> ownerOpen = True, passOpen = True, passSetOpen = True, ownerAnimate = Some False \<rparr>"
  let ?es = "[MouseEnter, MouseLeave, Elapse 120, MouseLeave, Elapse 60, MouseEnter]"
  have h1: "\<not> animate (context_of (Sidebar_mount ?ow))"
    by (simp add: animate_context_of Sidebar_mount_def)
  have h2: "list_all is_hover ?es"
    by (simp add: is_hover_def)
  have start: "open (context_of (run [MountDesktop] (Sidebar_mount ?ow)))"
    by (simp add: run_def world_defs open_context_of Sidebar_mount_def)
  from hover_without_animate_keeps_open [OF h1 h2, of "[MountDesktop]"] start
  have "open (context_of (run ?es (run [MountDesktop] (Sidebar_mount ?ow))))"
    by simp
  with h1 h2 start show ?thesis by blast
qed

text \<open>
  C1. Pointer-enter sets the open flag at once and pointer-leave sets a timer of 120 ms
  that clears it; a pointer-enter before the timer is due is meant to cancel the
  collapse and leave the sidebar open. The handler of line 114 never clears the timer
  whose handle line 115 stores: the sidebar is mounted, entered, left, and entered again
  50 ms later, while the timer is pending and the flag is set; 70 ms later the timer
  fires and the flag is cleared, with the pointer inside.
\<close>

theorem reenter_within_delay_still_collapses:
  "open (context_of (run [MountDesktop, MouseEnter]
      (Sidebar_mount \<lparr> ownerOpen = False, passOpen = False, passSetOpen = False, ownerAnimate = None \<rparr>)))
   \<and> timers (run [MountDesktop, MouseEnter, MouseLeave]
      (Sidebar_mount \<lparr> ownerOpen = False, passOpen = False, passSetOpen = False, ownerAnimate = None \<rparr>))
      = [\<lparr> handle = 1, due = 120, cbAnimate = True, cbSetOpen = SetOpenState \<rparr>]
   \<and> open (context_of (run [MountDesktop, MouseEnter, MouseLeave, Elapse 50, MouseEnter]
      (Sidebar_mount \<lparr> ownerOpen = False, passOpen = False, passSetOpen = False, ownerAnimate = None \<rparr>)))
   \<and> clock (run [MountDesktop, MouseEnter, MouseLeave, Elapse 50, MouseEnter]
      (Sidebar_mount \<lparr> ownerOpen = False, passOpen = False, passSetOpen = False, ownerAnimate = None \<rparr>))
      = 50
   \<and> timers (run [MountDesktop, MouseEnter, MouseLeave, Elapse 50, MouseEnter]
      (Sidebar_mount \<lparr> ownerOpen = False, passOpen = False, passSetOpen = False, ownerAnimate = None \<rparr>))
      = [\<lparr> handle = 1, due = 120, cbAnimate = True, cbSetOpen = SetOpenState \<rparr>]
   \<and> \<not> open (context_of (run [MountDesktop, MouseEnter, MouseLeave, Elapse 50, MouseEnter, Elapse 70]
      (Sidebar_mount \<lparr> ownerOpen = False, passOpen = False, passSetOpen = False, ownerAnimate = None \<rparr>)))"
  by (simp add: run_def world_defs open_context_of context_fields Sidebar_mount_def)

text \<open>
  C3. Unmounting the desktop sidebar is meant to clear the collapse timer, so that no
  \<^verbatim>\<open>setOpen(false)\<close> fires on a removed view. The component has no cleanup: the
  sidebar is mounted, entered, left and unmounted; the instance and its ref are gone,
  the timer is still pending, and 120 ms later it fires and clears the open flag, in
  the provider's state and, under a controlled pair, in the owner's.
\<close>

theorem collapse_timer_fires_after_unmount:
  "desktop (run [MountDesktop, MouseEnter, MouseLeave, UnmountDesktop]
      (Sidebar_mount \<lparr> ownerOpen = False, passOpen = False, passSetOpen = False, ownerAnimate = None \<rparr>))
      = None
   \<and> timers (run [MountDesktop, MouseEnter, MouseLeave, UnmountDesktop]
      (Sidebar_mount \<lparr> ownerOpen = False, passOpen = False, passSetOpen = False, ownerAnimate = None \<rparr>))
      = [\<lparr> handle = 1, due = 120, cbAnimate = True, cbSetOpen = SetOpenState \<rparr>]
   \<and> openState (run [MountDesktop, MouseEnter, MouseLeave, UnmountDesktop]
      (Sidebar_mount \<lparr> ownerOpen = False, passOpen = False, passSetOpen = False, ownerAnimate = None \<rparr>))
   \<and> \<not> openState (run [MountDesktop, MouseEnter, MouseLeave, UnmountDesktop, Elapse 120]
      (Sidebar_mount \<lparr> ownerOpen = False, passOpen = False, passSetOpen = False, ownerAnimate = None \<rparr>))
   \<and> ownerOpen (owner (run [MountDesktop, MouseEnter, MouseLeave, UnmountDesktop]
      (Sidebar_mount \<lparr> ownerOpen = True, passOpen = True, passSetOpen = True, ownerAnimate = None \<rparr>)))
   \<and> \<not> ownerOpen (owner (run [MountDesktop, MouseEnter, MouseLeave, UnmountDesktop, Elapse 120]
      (Sidebar_mount \<lparr> ownerOpen = True, passOpen = True, passSetOpen = True, ownerAnimate = None \<rparr>)))"
  by (simp add: run_def world_defs context_fields Sidebar_mount_def)

section \<open>The mobile sidebar\<close>

text \<open>
  C5. Every mount of the mobile sidebar starts with \<^verbatim>\<open>menuOpen = false\<close>: whatever context
  the provider supplies and whatever world the component is mounted into, for every
  choice of the owner's props (a controlled \<^verbatim>\<open>open\<close> among them), and also on a mount
  that follows an unmount.
\<close>

theorem MobileSidebar_menuOpen_initially_false:
  "mobile (MobileSidebar_mount c w) = Some \<lparr> menuOpen = False \<rparr>
   \<and> mobile (step MountMobile (Sidebar_mount ow)) = Some \<lparr> menuOpen = False \<rparr>
   \<and> \<not> drawer_rendered (step MountMobile (Sidebar_mount ow))
   \<and> mobile (step MountMobile (step UnmountMobile w)) = Some \<lparr> menuOpen = False \<rparr>"
  by (simp add: world_defs call_frame drawer_rendered_def Sidebar_mount_def)

text \<open>
  C8. A click on the menu button of a mounted mobile sidebar negates \<^verbatim>\<open>menuOpen\<close> and
  changes nothing else, so two clicks give the state before them; the component sets
  no timer, and unmounting drops its instance, so that a later mount starts closed
  whatever \<^verbatim>\<open>menuOpen\<close> was.
\<close>

theorem menu_click_flips_once:
  assumes "mobile w = Some m"
  shows "step ClickMenu w = w\<lparr>mobile := Some \<lparr> menuOpen = \<not> menuOpen m \<rparr>\<rparr>
    \<and> step ClickMenu (step ClickMenu w) = w
    \<and> timers (step ClickMenu w) = timers w
    \<and> mobile (step UnmountMobile (step ClickMenu w)) = None
    \<and> step UnmountMobile (step ClickMenu w) = step UnmountMobile w
    \<and> mobile (step MountMobile (step UnmountMobile (step ClickMenu w))) =
        Some \<lparr> menuOpen = False \<rparr>"
proof -
  have m: "\<lparr> menuOpen = menuOpen m \<rparr> = m"
    by simp
  have same: "w\<lparr>mobile := Some m\<rparr> = w"
    using assms by (metis world.surjective world.update_convs(4))
  show ?thesis
    using assms same by (simp add: world_defs call_frame m)
qed

theorem menu_click_flips_once_witness:
  "mobile (run [MountMobile] (Sidebar_mount
      \<lparr> ownerOpen = True, passOpen = True, passSetOpen = True, ownerAnimate = None \<rparr>))
     = Some \<lparr> menuOpen = False \<rparr>
   \<and> mobile (step ClickMenu (run [MountMobile] (Sidebar_mount
      \<lparr> ownerOpen = True, passOpen = True, passSetOpen = True, ownerAnimate = None \<rparr>)))
     = Some \<lparr> menuOpen = True \<rparr>
   \<and> step ClickMenu (step ClickMenu (run [MountMobile] (Sidebar_mount
      \<lparr> ownerOpen = True, passOpen = True, passSetOpen = True, ownerAnimate = None \<rparr>)))
     = run [MountMobile] (Sidebar_mount
      \<lparr> ownerOpen = True, passOpen = True, passSetOpen = True, ownerAnimate = None \<rparr>)
   \<and> mobile (step UnmountMobile (step ClickMenu (run [MountMobile] (Sidebar_mount
      \<lparr> ownerOpen = True, passOpen = True, passSetOpen = True, ownerAnimate = None \<rparr>))))
     = None"
proof -
  let ?w = "run [MountMobile] (Sidebar_mount
      \<lparr> ownerOpen = True, passOpen = True, passSetOpen = True, ownerAnimate = None \<rparr>)"
  have h: "mobile ?w = Some \<lparr> menuOpen = False \<rparr>"
    by (simp add: run_def world_defs call_frame Sidebar_mount_def)
  note t = menu_click_flips_once [OF h]
  from t have "step ClickMenu ?w =
      ?w\<lparr>mobile := Some \<lparr> menuOpen = \<not> menuOpen \<lparr> menuOpen = False \<rparr> \<rparr>\<rparr>"
    by blast
  then have once: "mobile (step ClickMenu ?w) = Some \<lparr> menuOpen = True \<rparr>"
    by (simp del: step.simps)
  from t have twice: "step ClickMenu (step ClickMenu ?w) = ?w"
    by blast
  from t have gone: "mobile (step UnmountMobile (step ClickMenu ?w)) = None"
    by blast
  from h once twice gone show ?thesis by blast
qed

text \<open>
  C10. Mounting the mobile sidebar calls the context's \<^verbatim>\<open>setOpen(false)\<close> on every path.
  The shared open flag is false afterwards when \<^verbatim>\<open>open\<close> and \<^verbatim>\<open>setOpen\<close> are both left
  out or both supplied (the controlled pair, also with \<^verbatim>\<open>open\<close> true before). When \<^verbatim>\<open>open\<close>
  is supplied without \<^verbatim>\<open>setOpen\<close> the call goes to the provider's own state and the flag
  keeps the supplied value; when \<^verbatim>\<open>setOpen\<close> is supplied without \<^verbatim>\<open>open\<close> the call goes to
  the owner and the flag, read from the provider's state, is unchanged.
\<close>

theorem mobile_mount_calls_setOpen_false:
  assumes "mobile w = None"
  shows "step MountMobile w =
      call (setOpen (context_of w)) False (w\<lparr>mobile := Some \<lparr> menuOpen = False \<rparr>\<rparr>)
    \<and> (passOpen (owner w) = passSetOpen (owner w)
        \<longrightarrow> \<not> open (context_of (step MountMobile w)))
    \<and> (passOpen (owner w) \<and> \<not> passSetOpen (owner w)
        \<longrightarrow> open (context_of (step MountMobile w)) = ownerOpen (owner w)
          \<and> \<not> openState (step MountMobile w))
    \<and> (\<not> passOpen (owner w) \<and> passSetOpen (owner w)
        \<longrightarrow> open (context_of (step MountMobile w)) = openState w
          \<and> \<not> ownerOpen (owner (step MountMobile w)))"
  using assms by (simp add: world_defs context_fields)

theorem mobile_mount_calls_setOpen_false_witness:
  "mobile (Sidebar_mount
      \<lparr> ownerOpen = True, passOpen = True, passSetOpen = True, ownerAnimate = None \<rparr>) = None
   \<and> open (context_of (Sidebar_mount
      \<lparr> ownerOpen = True, passOpen = True, passSetOpen = True, ownerAnimate = None \<rparr>))
   \<and> \<not> open (context_of (step MountMobile (Sidebar_mount
      \<lparr> ownerOpen = True, passOpen = True, passSetOpen = True, ownerAnimate = None \<rparr>)))
   \<and> mobile (Sidebar_mount
      \<lparr> ownerOpen = True, passOpen = True, passSetOpen = False, ownerAnimate = None \<rparr>) = None
   \<and> open (context_of (step MountMobile (Sidebar_mount
      \<lparr> ownerOpen = True, passOpen = True, passSetOpen = False, ownerAnimate = None \<rparr>)))
   \<and> mobile (Sidebar_mount
      \<lparr> ownerOpen = True, passOpen = False, passSetOpen = True, ownerAnimate = None \<rparr>) = None
   \<and> \<not> ownerOpen (owner (step MountMobile (Sidebar_mount
      \<lparr> ownerOpen = True, passOpen = False, passSetOpen = True, ownerAnimate = None \<rparr>)))"
proof -
  let ?pair = "Sidebar_mount
      \<lparr> ownerOpen = True, passOpen = True, passSetOpen = True, ownerAnimate = None \<rparr>"
  let ?fixed = "Sidebar_mount
      \<lparr> ownerOpen = True, passOpen = True, passSetOpen = False, ownerAnimate = None \<rparr>"
  let ?setter = "Sidebar_mount
      \<lparr> ownerOpen = True, passOpen = False, passSetOpen = True, ownerAnimate = None \<rparr>"
  have h1: "mobile ?pair = None" and h2: "mobile ?fixed = None" and h3: "mobile ?setter = None"
    by (simp_all add: Sidebar_mount_def)
  have before: "open (context_of ?pair)"
    by (simp add: open_context_of Sidebar_mount_def)
  have p1: "passOpen (owner ?pair) = passSetOpen (owner ?pair)"
    and p2: "passOpen (owner ?fixed) \<and> \<not> passSetOpen (owner ?fixed)"
    and o2: "ownerOpen (owner ?fixed)"
    and p3: "\<not> passOpen (owner ?setter) \<and> passSetOpen (owner ?setter)"
    by (simp_all add: Sidebar_mount_def)
  from mobile_mount_calls_setOpen_false [OF h1] p1
  have c1: "\<not> open (context_of (step MountMobile ?pair))"
    by blast
  from mobile_mount_calls_setOpen_false [OF h2] p2 o2
  have c2: "open (context_of (step MountMobile ?fixed))"
    by blast
  from mobile_mount_calls_setOpen_false [OF h3] p3
  have c3: "\<not> ownerOpen (owner (step MountMobile ?setter))"
    by blast
  from h1 before c1 h2 c2 h3 c3 show ?thesis by blast
qed

text \<open>
  That every mount resets the shared flag to false does not hold for an owner that
  renders \<^verbatim>\<open><Sidebar open={true}>\<close> with no \<^verbatim>\<open>setOpen\<close>: the flag is true
  before the mobile sidebar mounts and true after.
\<close>

theorem mobile_mount_keeps_open_prop:
  "mobile (Sidebar_mount
      \<lparr> ownerOpen = True, passOpen = True, passSetOpen = False, ownerAnimate = None \<rparr>) = None
   \<and> open (context_of (Sidebar_mount
      \<lparr> ownerOpen = True, passOpen = True, passSetOpen = False, ownerAnimate = None \<rparr>))
   \<and> open (context_of (step MountMobile (Sidebar_mount
      \<lparr> ownerOpen = True, passOpen = True, passSetOpen = False, ownerAnimate = None \<rparr>))) \<noteq> False
   \<and> DesktopSidebar_width (context_of (step MountMobile (Sidebar_mount
      \<lparr> ownerOpen = True, passOpen = True, passSetOpen = False, ownerAnimate = None \<rparr>))) = 260"
  by (simp add: world_defs context_fields DesktopSidebar_width_def Sidebar_mount_def)

section \<open>The reveal wrapper\<close>

lemma ScrollReveal_render_visible_stays:
  "shown s = Visible \<Longrightarrow> shown (ScrollReveal_render triggerOnce b s) = Visible"
  by (simp add: ScrollReveal_render_def ScrollReveal_effect_def Let_def)

lemma ScrollReveal_entry_visible_stays:
  "shown s = Visible \<Longrightarrow> shown (ScrollReveal_entry b s) = Visible"
  by (simp add: ScrollReveal_entry_def ScrollReveal_render_visible_stays)

lemma ScrollReveal_entry_latched:
  "inView (hook s) \<and> \<not> observing (hook s) \<Longrightarrow>
   inView (hook (ScrollReveal_entry b s)) \<and> \<not> observing (hook (ScrollReveal_entry b s))"
  by (simp add: ScrollReveal_entry_def ScrollReveal_render_def useInView_entry_def)

lemma ScrollReveal_entry_latches:
  "inView (hook s) \<longrightarrow> \<not> observing (hook s) \<Longrightarrow>
   inView (hook (ScrollReveal_entry b s)) \<longrightarrow> \<not> observing (hook (ScrollReveal_entry b s))"
  by (simp add: ScrollReveal_entry_def ScrollReveal_render_def ScrollReveal_effect_def
      useInView_entry_def Let_def)

lemma ScrollReveal_run_visible_stays:
  "shown s = Visible \<Longrightarrow> shown (ScrollReveal_run bs s) = Visible"
proof (induction bs arbitrary: s)
  case Nil
  then show ?case by (simp add: ScrollReveal_run_def)
next
  case (Cons b bs)
  from Cons.prems have "shown (ScrollReveal_entry b s) = Visible"
    by (rule ScrollReveal_entry_visible_stays)
  then have "shown (ScrollReveal_run bs (ScrollReveal_entry b s)) = Visible"
    by (rule Cons.IH)
  then show ?case by (simp add: ScrollReveal_run_def)
qed

lemma ScrollReveal_run_latched:
  "inView (hook s) \<and> \<not> observing (hook s) \<Longrightarrow>
   inView (hook (ScrollReveal_run bs s)) \<and> \<not> observing (hook (ScrollReveal_run bs s))"
proof (induction bs arbitrary: s)
  case Nil
  then show ?case by (simp add: ScrollReveal_run_def)
next
  case (Cons b bs)
  from Cons.prems
  have "inView (hook (ScrollReveal_entry b s)) \<and> \<not> observing (hook (ScrollReveal_entry b s))"
    by (rule ScrollReveal_entry_latched)
  then have "inView (hook (ScrollReveal_run bs (ScrollReveal_entry b s)))
      \<and> \<not> observing (hook (ScrollReveal_run bs (ScrollReveal_entry b s)))"
    by (rule Cons.IH)
  then show ?case by (simp add: ScrollReveal_run_def)
qed

lemma ScrollReveal_run_latches:
  "inView (hook s) \<longrightarrow> \<not> observing (hook s) \<Longrightarrow>
   inView (hook (ScrollReveal_run bs s)) \<longrightarrow> \<not> observing (hook (ScrollReveal_run bs s))"
proof (induction bs arbitrary: s)
  case Nil
  then show ?case by (simp add: ScrollReveal_run_def)
next
  case (Cons b bs)
  from Cons.prems
  have "inView (hook (ScrollReveal_entry b s)) \<longrightarrow> \<not> observing (hook (ScrollReveal_entry b s))"
    by (rule ScrollReveal_entry_latches)
  then have "inView (hook (ScrollReveal_run bs (ScrollReveal_entry b s)))
      \<longrightarrow> \<not> observing (hook (ScrollReveal_run bs (ScrollReveal_entry b s)))"
    by (rule Cons.IH)
  then show ?case by (simp add: ScrollReveal_run_def)
qed

lemma ScrollReveal_run_append:
  "ScrollReveal_run (bs @ bs') s = ScrollReveal_run bs' (ScrollReveal_run bs s)"
  by (simp add: ScrollReveal_run_def)

lemma ScrollReveal_trace_head:
  "\<exists>rest. ScrollReveal_trace s bs = s # rest"
  by (cases bs) simp_all

lemma ScrollReveal_trace_all_visible:
  "shown s = Visible \<Longrightarrow> \<forall>x \<in> set (ScrollReveal_trace s bs). shown x = Visible"
proof (induction bs arbitrary: s)
  case Nil
  then show ?case by simp
next
  case (Cons b bs)
  from Cons.prems have "shown (ScrollReveal_entry b s) = Visible"
    by (rule ScrollReveal_entry_visible_stays)
  then have "\<forall>x \<in> set (ScrollReveal_trace (ScrollReveal_entry b s) bs). shown x = Visible"
    by (rule Cons.IH)
  with Cons.prems show ?case by simp
qed

lemma all_visible_no_change:
  "\<forall>v \<in> set vs. v = Visible \<Longrightarrow> reveals vs = 0 \<and> hides vs = 0"
proof (induction vs)
  case Nil
  show ?case by simp
next
  case (Cons v vs)
  then show ?case by (cases vs) simp_all
qed

lemma reveals_step:
  "reveals (v # v' # vs) =
     (if v = Hidden \<and> v' = Visible then Suc (reveals (v' # vs)) else reveals (v' # vs))"
  by (cases v; cases v') simp_all

lemma hides_step:
  "hides (v # v' # vs) =
     (if v = Visible \<and> v' = Hidden then Suc (hides (v' # vs)) else hides (v' # vs))"
  by (cases v; cases v') simp_all

lemma ScrollReveal_trace_changes:
  "reveals (map shown (ScrollReveal_trace s bs)) \<le> 1
   \<and> hides (map shown (ScrollReveal_trace s bs)) = 0"
proof (induction bs arbitrary: s)
  case Nil
  show ?case by (cases "shown s") simp_all
next
  case (Cons b bs)
  let ?s' = "ScrollReveal_entry b s"
  obtain rest where rest: "ScrollReveal_trace ?s' bs = ?s' # rest"
    using ScrollReveal_trace_head by blast
  have IH: "reveals (shown ?s' # map shown rest) \<le> 1 \<and> hides (shown ?s' # map shown rest) = 0"
    using Cons.IH [of ?s'] rest by simp
  show ?case
  proof (cases "shown ?s'")
    case Hidden
    then have "shown s = Hidden"
      using ScrollReveal_entry_visible_stays [of s b] by (cases "shown s") simp_all
    with Hidden IH rest show ?thesis
      by (simp add: reveals_step hides_step)
  next
    case Visible
    then have "\<forall>x \<in> set (ScrollReveal_trace ?s' bs). shown x = Visible"
      by (rule ScrollReveal_trace_all_visible)
    then have "\<forall>v \<in> set (shown ?s' # map shown rest). v = Visible"
      using rest by simp
    then have "reveals (shown ?s' # map shown rest) = 0 \<and> hides (shown ?s' # map shown rest) = 0"
      by (rule all_visible_no_change)
    with Visible rest show ?thesis
      by (simp add: reveals_step hides_step)
  qed
qed

text \<open>
  C6. From its mount on, whatever the intersection observer reports, the wrapper goes
  from hidden to visible at most once and never from visible to hidden: once visible
  it is visible after every further sequence of entries, and once \<^verbatim>\<open>inView\<close> holds it
  holds after every further sequence of entries.
\<close>

theorem ScrollReveal_reveals_at_most_once:
  "reveals (map shown (ScrollReveal_trace ScrollReveal_mount bs)) \<le> 1
   \<and> hides (map shown (ScrollReveal_trace ScrollReveal_mount bs)) = 0
   \<and> (shown (ScrollReveal_run bs ScrollReveal_mount) = Visible \<longrightarrow>
        shown (ScrollReveal_run (bs @ bs') ScrollReveal_mount) = Visible)
   \<and> (inView (hook (ScrollReveal_run bs ScrollReveal_mount)) \<longrightarrow>
        inView (hook (ScrollReveal_run (bs @ bs') ScrollReveal_mount)))"
proof (intro conjI impI)
  show "reveals (map shown (ScrollReveal_trace ScrollReveal_mount bs)) \<le> 1"
    using ScrollReveal_trace_changes by blast
  show "hides (map shown (ScrollReveal_trace ScrollReveal_mount bs)) = 0"
    using ScrollReveal_trace_changes by blast
next
  assume "shown (ScrollReveal_run bs ScrollReveal_mount) = Visible"
  then show "shown (ScrollReveal_run (bs @ bs') ScrollReveal_mount) = Visible"
    by (simp add: ScrollReveal_run_append ScrollReveal_run_visible_stays)
next
  assume v: "inView (hook (ScrollReveal_run bs ScrollReveal_mount))"
  have "inView (hook ScrollReveal_mount) \<longrightarrow> \<not> observing (hook ScrollReveal_mount)"
    by (simp add: ScrollReveal_mount_def ScrollReveal_effect_def useInView_initial_def)
  then have "inView (hook (ScrollReveal_run bs ScrollReveal_mount))
      \<longrightarrow> \<not> observing (hook (ScrollReveal_run bs ScrollReveal_mount))"
    by (rule ScrollReveal_run_latches)
  with v have "inView (hook (ScrollReveal_run bs ScrollReveal_mount))
      \<and> \<not> observing (hook (ScrollReveal_run bs ScrollReveal_mount))"
    by simp
  then have "inView (hook (ScrollReveal_run bs' (ScrollReveal_run bs ScrollReveal_mount)))
      \<and> \<not> observing (hook (ScrollReveal_run bs' (ScrollReveal_run bs ScrollReveal_mount)))"
    by (rule ScrollReveal_run_latched)
  then show "inView (hook (ScrollReveal_run (bs @ bs') ScrollReveal_mount))"
    by (simp add: ScrollReveal_run_append)
qed

theorem ScrollReveal_reveals_at_most_once_witness:
  "shown (ScrollReveal_run [False] ScrollReveal_mount) = Hidden
   \<and> shown (ScrollReveal_run [False, True] ScrollReveal_mount) = Visible
   \<and> inView (hook (ScrollReveal_run [False, True] ScrollReveal_mount))
   \<and> shown (ScrollReveal_run ([False, True] @ [False, True, False]) ScrollReveal_mount) = Visible
   \<and> inView (hook (ScrollReveal_run ([False, True] @ [False, True, False]) ScrollReveal_mount))
   \<and> reveals (map shown (ScrollReveal_trace ScrollReveal_mount [False, True, False, True, False])) = 1"
proof -
  have before: "shown (ScrollReveal_run [False] ScrollReveal_mount) = Hidden"
    by (simp add: ScrollReveal_run_def ScrollReveal_entry_def ScrollReveal_render_def
        ScrollReveal_effect_def ScrollReveal_mount_def useInView_entry_def useInView_initial_def)
  have h1: "shown (ScrollReveal_run [False, True] ScrollReveal_mount) = Visible"
    by (simp add: ScrollReveal_run_def ScrollReveal_entry_def ScrollReveal_render_def
        ScrollReveal_effect_def ScrollReveal_mount_def useInView_entry_def useInView_initial_def)
  have h2: "inView (hook (ScrollReveal_run [False, True] ScrollReveal_mount))"
    by (simp add: ScrollReveal_run_def ScrollReveal_entry_def ScrollReveal_render_def
        ScrollReveal_effect_def ScrollReveal_mount_def useInView_entry_def useInView_initial_def)
  have once: "reveals (map shown
      (ScrollReveal_trace ScrollReveal_mount [False, True, False, True, False])) = 1"
    by (simp add: ScrollReveal_entry_def ScrollReveal_render_def
        ScrollReveal_effect_def ScrollReveal_mount_def useInView_entry_def useInView_initial_def)
  note t = ScrollReveal_reveals_at_most_once [of "[False, True]" "[False, True, False]"]
  from t h1
  have c1: "shown (ScrollReveal_run ([False, True] @ [False, True, False]) ScrollReveal_mount)
      = Visible"
    by blast
  from t h2
  have c2: "inView (hook (ScrollReveal_run ([False, True] @ [False, True, False])
      ScrollReveal_mount))"
    by blast
  from before h1 h2 c1 c2 once show ?thesis by blast
qed

section \<open>Defaults of the state flags\<close>

text \<open>
  C7. The flags that are not supplied default as follows: \<^verbatim>\<open>open\<close> is false (the
  provider's state starts false and is what an absent \<^verbatim>\<open>open\<close> prop falls back to),
  \<^verbatim>\<open>menuOpen\<close> is false, \<^verbatim>\<open>inView\<close> is false, and \<^verbatim>\<open>animate\<close> is true.
\<close>

theorem state_flag_defaults:
  "openState (Sidebar_mount ow) = False
   \<and> open (SidebarProvider \<lparr> openProp = None, setOpenProp = sp, animateProp = ap \<rparr>
        (openState (Sidebar_mount ow))) = False
   \<and> animate (SidebarProvider \<lparr> openProp = op, setOpenProp = sp, animateProp = None \<rparr> st) = True
   \<and> mobile (MobileSidebar_mount c w) = Some \<lparr> menuOpen = False \<rparr>
   \<and> inView (hook ScrollReveal_mount) = False"
  by (simp add: Sidebar_mount_def SidebarProvider_def MobileSidebar_mount_def call_frame
      ScrollReveal_mount_def ScrollReveal_effect_def useInView_initial_def)

text \<open>
  That every flag defaults to false does not hold for \<^verbatim>\<open>animate\<close>: a
  sidebar rendered with no props has \<^verbatim>\<open>animate = true\<close> in its context, by the default
  parameter of line 38.
\<close>

theorem animate_default_is_not_false:
  "animateProp \<lparr> openProp = None, setOpenProp = None, animateProp = None \<rparr> = None
   \<and> animate (Sidebar \<lparr> openProp = None, setOpenProp = None, animateProp = None \<rparr> False) \<noteq> False"
  by (simp add: Sidebar_def SidebarProvider_def)

end
